theory Spec2Isabelle
  imports Main
begin

section \<open>Data model of run.py\<close>

text \<open>
  The server of \<^verbatim>\<open>run.py\<close> keeps its session in module globals: \<^verbatim>\<open>camera\<close>,
  \<^verbatim>\<open>output_frame\<close>, \<^verbatim>\<open>detection_enabled\<close> and \<^verbatim>\<open>model\<close>. Frames are numpy buffers that
  OpenCV draws on in place, so a frame variable of the source is an address into a store
  of buffers, and \<^verbatim>\<open>frame.copy()\<close> and \<^verbatim>\<open>camera.read()\<close> allocate a new address.

  A buffer is kept abstractly: the raw picture the camera delivered (\<open>pixels\<close>), its
  height (\<^verbatim>\<open>frame.shape[0]\<close>), and the drawing calls applied to it so far, in order. Of a
  drawing call the geometry and the text are kept; font, scale, colour and thickness are
  constants of the source and are left out.
\<close>

type_synonym addr = nat

datatype draw =
    Rectangle "int \<times> int" "int \<times> int"
  | PutText string "int \<times> int"

record image =
  height :: int
  pixels :: nat
  drawn :: "draw list"

text \<open>
  One row of \<^verbatim>\<open>results.pandas().xyxy[0]\<close>, with the coordinates already passed through
  \<^verbatim>\<open>int(...)\<close> and the confidence already formatted by \<^verbatim>\<open>{confidence:.2f}\<close>.
\<close>

record detection =
  xmin :: int
  ymin :: int
  xmax :: int
  ymax :: int
  det_name :: string
  confidence :: string

text \<open>The body of a \<^verbatim>\<open>jsonify({...})\<close> response: the keys of the dict with their values.\<close>

datatype json = JStr string | JBool bool

type_synonym response = "(string \<times> json) list"

text \<open>The object \<^verbatim>\<open>cv2.VideoCapture(0)\<close> returns, with what \<^verbatim>\<open>isOpened()\<close> answers.\<close>

datatype video_capture = VideoCapture (isOpened: bool)

text \<open>
  The loaded model with the configuration \<^verbatim>\<open>load_model\<close> gives it (thresholds in
  hundredths).
\<close>

datatype yolo = Yolo (conf: nat) (iou: nat) (max_det: nat)

text \<open>
  The globals, the store of frame buffers, and two counters that record effects on the
  outside: how many \<^verbatim>\<open>cv2.VideoCapture\<close> objects have been created and how many capture
  threads have been started.
\<close>

record state =
  camera :: "video_capture option"
  output_frame :: "addr option"
  detection_enabled :: bool
  model :: "yolo option"
  store :: "image list"
  captures_created :: nat
  threads_started :: nat

definition initial :: state where
  "initial = \<lparr>camera = None, output_frame = None, detection_enabled = True, model = None,
     store = [], captures_created = 0, threads_started = 0\<rparr>"

text \<open>
  The body of the POST request as \<^verbatim>\<open>start_camera\<close> looks at it: not JSON at all; a JSON
  object, with the value of its \<^verbatim>\<open>detection\<close> key if it has one (a boolean, as the page
  sends it); or a body on which \<^verbatim>\<open>request.json.get\<close> raises (malformed JSON, or JSON that
  is not an object), with the text of the exception.
\<close>

datatype request = NotJson | JsonObject "bool option" | JsonInvalid string

section \<open>Frame buffers\<close>

definition alloc :: "image \<Rightarrow> state \<Rightarrow> addr \<times> state" where
  "alloc img s = (length (store s), s\<lparr>store := store s @ [img]\<rparr>)"

text \<open>\<^verbatim>\<open>frame.copy()\<close>: a new buffer with the contents of the old one.\<close>

definition copy :: "addr \<Rightarrow> state \<Rightarrow> addr \<times> state" where
  "copy a s = alloc (store s ! a) s"

text \<open>\<^verbatim>\<open>cv2.rectangle(frame, ...)\<close> and \<^verbatim>\<open>cv2.putText(frame, ...)\<close>: drawing in place.\<close>

definition draw_on :: "addr \<Rightarrow> draw \<Rightarrow> state \<Rightarrow> state" where
  "draw_on a d s =
     s\<lparr>store := (store s)[a := (store s ! a)\<lparr>drawn := drawn (store s ! a) @ [d]\<rparr>]\<rparr>"

text \<open>What a reader of the slot sees: the buffer \<^verbatim>\<open>output_frame\<close> refers to, if any.\<close>

definition slot :: "state \<Rightarrow> image option" where
  "slot s = (case output_frame s of None \<Rightarrow> None | Some a \<Rightarrow> Some (store s ! a))"

section \<open>Model loading and detection\<close>

text \<open>
  \<^verbatim>\<open>load_model\<close>: \<^verbatim>\<open>torch.hub.load\<close> either raises (the argument is \<open>False\<close>), and the
  function returns \<^verbatim>\<open>None\<close> with the global untouched, or it succeeds and the configured
  model is stored in the global and returned.
\<close>

definition load_model :: "bool \<Rightarrow> state \<Rightarrow> yolo option \<times> state" where
  "load_model hub s =
     (if hub then (Some (Yolo 45 45 50), s\<lparr>model := Some (Yolo 45 45 50)\<rparr>)
      else (None, s))"

text \<open>\<^verbatim>\<open>check_model_file\<close>: the argument is what \<^verbatim>\<open>os.path.exists('yolov5s.pt')\<close> answers.\<close>

definition check_model_file :: "bool \<Rightarrow> bool" where
  "check_model_file file_exists = (if \<not> file_exists then False else True)"

text \<open>The two drawing calls of the loop body of \<^verbatim>\<open>detect_objects\<close> for one detection.\<close>

definition draw_detection :: "addr \<Rightarrow> detection \<Rightarrow> state \<Rightarrow> state" where
  "draw_detection frame d s =
     draw_on frame (PutText (det_name d @ '' '' @ confidence d) (xmin d, ymin d - 10))
       (draw_on frame (Rectangle (xmin d, ymin d) (xmax d, ymax d)) s)"

text \<open>
  \<^verbatim>\<open>detect_objects(frame)\<close>. \<open>hub\<close> is the outcome of \<^verbatim>\<open>torch.hub.load\<close> should the model
  have to be loaded; \<open>inference\<close> is the outcome of the first statements of the \<^verbatim>\<open>try\<close>
  block (colour conversion, \<^verbatim>\<open>model(rgb_frame)\<close>, \<^verbatim>\<open>results.pandas()\<close>): the text of the
  exception raised, or the rows found. The drawing calls themselves are taken to return.
  The function returns the frame it was given.
\<close>

definition detect_objects ::
  "bool \<Rightarrow> string + detection list \<Rightarrow> addr \<Rightarrow> state \<Rightarrow> addr \<times> state" where
  "detect_objects hub inference frame s =
     (let s1 = (if model s = None
                then (case load_model hub s of (m, s') \<Rightarrow> s'\<lparr>model := m\<rparr>)
                else s)
      in if model s1 = None then (frame, s1)
         else (case inference of
                 Inl e \<Rightarrow> (frame, s1)
               | Inr detections \<Rightarrow> (frame, fold (draw_detection frame) detections s1)))"

text \<open>\<^verbatim>\<open>get_ip_address\<close>: the address the socket reports, or the fallback when it raises.\<close>

definition get_ip_address :: "string + string \<Rightarrow> string" where
  "get_ip_address sock = (case sock of Inl e \<Rightarrow> ''127.0.0.1'' | Inr ip \<Rightarrow> ip)"

section \<open>The capture loop\<close>

text \<open>
  What the outside supplies to one pass of the \<^verbatim>\<open>while True\<close> loop of
  \<^verbatim>\<open>capture_frames\<close>: the result of \<^verbatim>\<open>camera.read()\<close> (\<open>None\<close> when \<^verbatim>\<open>success\<close> is false,
  otherwise the raw frame), the outcomes of model loading and inference, and the outcome
  of the socket query of \<^verbatim>\<open>get_ip_address\<close>.
\<close>

record tick =
  read_result :: "image option"
  hub_load :: bool
  inference_result :: "string + detection list"
  sock :: "string + string"

datatype loop_ctl = Continue | Break

text \<open>
  One pass of the loop body falls into two parts. Lines 102 to 139 read \<^verbatim>\<open>camera\<close> and
  \<^verbatim>\<open>detection_enabled\<close> without the lock and work on the local \<^verbatim>\<open>frame\<close>; only the
  assignment \<^verbatim>\<open>output_frame = frame.copy()\<close> of lines 142 and 143 is under the lock, and it
  is not guarded by any test. A request thread can therefore run a handler between the
  two parts, and the two are separate steps here. (A handler can also land inside the
  first part, between its reads of the globals at lines 102, 110, 116 and 122; the first
  part is kept as one step.) \<^verbatim>\<open>frame_count\<close> only feeds a log line and is left out.

  \<open>capture_annotate\<close> is the first part: it leaves the loop (\<open>Left\<close>), goes back to the
  loop head after a failed read (\<open>Retry\<close>), or arrives at line 142 holding the annotated
  frame (\<open>Annotated frame\<close>).
\<close>

datatype pass = Left | Retry | Annotated addr

definition capture_annotate :: "tick \<Rightarrow> state \<Rightarrow> pass \<times> state" where
  "capture_annotate t s =
     (if camera s = None then (Left, s)
      else (case read_result t of
        None \<Rightarrow> (if camera s \<noteq> None then (Retry, s) else (Left, s))
      | Some raw \<Rightarrow>
          (case alloc raw s of (frame, s1) \<Rightarrow>
           (case (if detection_enabled s1
                  then detect_objects (hub_load t) (inference_result t) frame s1
                  else (frame, s1)) of (frame, s2) \<Rightarrow>
            let s3 = draw_on frame
                       (PutText (''Detection: '' @ (if detection_enabled s2 then ''ON'' else ''OFF''))
                          (10, 30)) s2;
                s4 = draw_on frame
                       (PutText (''Access: http://'' @ get_ip_address (sock t) @ '':5000'')
                          (10, height (store s3 ! frame) - 10)) s3
            in (Annotated frame, s4)))))"

text \<open>The second part, lines 142 and 143, run on the globals as they are at that moment.\<close>

definition capture_publish :: "addr \<Rightarrow> state \<Rightarrow> state" where
  "capture_publish frame s =
     (case copy frame s of (fresh, s') \<Rightarrow> s'\<lparr>output_frame := Some fresh\<rparr>)"

text \<open>A whole pass with no other thread in between.\<close>

definition capture_iter :: "tick \<Rightarrow> state \<Rightarrow> loop_ctl \<times> state" where
  "capture_iter t s =
     (case capture_annotate t s of
        (Left, s') \<Rightarrow> (Break, s')
      | (Retry, s') \<Rightarrow> (Continue, s')
      | (Annotated frame, s') \<Rightarrow> (Continue, capture_publish frame s'))"

text \<open>
  The loop over the passes the camera has given input for so far: \<open>Break\<close> when the loop
  was left, \<open>Continue\<close> when it is still running after the last pass.
\<close>

fun capture_loop :: "tick list \<Rightarrow> state \<Rightarrow> loop_ctl \<times> state" where
  "capture_loop [] s = (Continue, s)"
| "capture_loop (t # ts) s =
     (case capture_iter t s of
        (Break, s') \<Rightarrow> (Break, s')
      | (Continue, s') \<Rightarrow> capture_loop ts s')"

text \<open>
  \<^verbatim>\<open>capture_frames\<close>, the body of the capture thread: \<open>Break\<close> when the function has
  returned. \<open>file_exists\<close> and \<open>hub\<close> are the outcomes of the file check and of the model
  loading at its start.
\<close>

definition capture_frames :: "bool \<Rightarrow> bool \<Rightarrow> tick list \<Rightarrow> state \<Rightarrow> loop_ctl \<times> state" where
  "capture_frames file_exists hub ticks s =
     (if \<not> check_model_file file_exists then (Break, s)
      else capture_loop ticks (if model s = None then snd (load_model hub s) else s))"

section \<open>The stream generator\<close>

text \<open>The multipart chunk \<^verbatim>\<open>generate\<close> yields for an encoded frame.\<close>

definition chunk :: "string \<Rightarrow> string" where
  "chunk encoded_frame =
     ''--frame'' @ [CHR 0x0D, CHR 0x0A] @ ''Content-Type: image/jpeg''
       @ [CHR 0x0D, CHR 0x0A, CHR 0x0D, CHR 0x0A] @ encoded_frame @ [CHR 0x0D, CHR 0x0A]"

text \<open>
  One \<^verbatim>\<open>next()\<close> on the generator \<^verbatim>\<open>generate()\<close>: the loop runs until it reaches the
  \<^verbatim>\<open>yield\<close>. The globals belong to all threads, so the generator sees, at its \<open>k\<close>-th
  acquisition of the lock, the state \<open>st k\<close> the other threads have left. \<open>imencode\<close> is
  \<^verbatim>\<open>cv2.imencode(".jpg", _)\<close>: the text of the exception it raises, or the flag and the
  bytes. The result is the chunk yielded and the number of the next acquisition; the
  function has no \<^verbatim>\<open>return\<close> and no \<^verbatim>\<open>break\<close>, so a call that yields nothing does not
  return at all, which is the value \<open>None\<close>.
\<close>

partial_function (option) generate_next ::
  "(image \<Rightarrow> string + bool \<times> string) \<Rightarrow> (nat \<Rightarrow> state) \<Rightarrow> nat \<Rightarrow> (string \<times> nat) option" where
  "generate_next imencode st k =
     (case output_frame (st k) of
        None \<Rightarrow> generate_next imencode st (Suc k)
      | Some a \<Rightarrow>
          (case imencode (store (st k) ! a) of
             Inl e \<Rightarrow> generate_next imencode st (Suc k)
           | Inr (flag, encoded_frame) \<Rightarrow>
               if \<not> flag then generate_next imencode st (Suc k)
               else Some (chunk encoded_frame, Suc k)))"

section \<open>The request handlers\<close>

text \<open>
  \<^verbatim>\<open>start_camera\<close>. \<open>vc\<close> is the outcome of \<^verbatim>\<open>cv2.VideoCapture(0)\<close>: the text of the
  exception raised, or what \<^verbatim>\<open>isOpened()\<close> answers on the object created. Starting the
  thread is recorded in \<open>threads_started\<close> and is taken to return; the thread itself runs
  \<open>capture_frames\<close>.
\<close>

definition start_camera :: "string + bool \<Rightarrow> request \<Rightarrow> state \<Rightarrow> response \<times> state" where
  "start_camera vc req s =
     (if camera s \<noteq> None then ([(''status'', JStr ''Camera is already running'')], s)
      else (case vc of
        Inl e \<Rightarrow> ([(''status'', JStr (''Error: '' @ e)), (''success'', JBool False)], s)
      | Inr opened \<Rightarrow>
          let s1 = s\<lparr>camera := Some (VideoCapture opened),
                     captures_created := Suc (captures_created s)\<rparr>
          in if \<not> opened
             then ([(''status'', JStr ''Failed to open camera''), (''success'', JBool False)], s1)
             else (case req of
                JsonInvalid e \<Rightarrow>
                  ([(''status'', JStr (''Error: '' @ e)), (''success'', JBool False)], s1)
              | JsonObject d \<Rightarrow>
                  ([(''status'', JStr ''Camera started successfully''), (''success'', JBool True)],
                   s1\<lparr>detection_enabled := (case d of None \<Rightarrow> True | Some b \<Rightarrow> b),
                      threads_started := Suc (threads_started s1)\<rparr>)
              | NotJson \<Rightarrow>
                  ([(''status'', JStr ''Camera started successfully''), (''success'', JBool True)],
                   s1\<lparr>detection_enabled := True,
                      threads_started := Suc (threads_started s1)\<rparr>))))"

text \<open>
  \<^verbatim>\<open>stop_camera\<close>. \<open>release\<close> is the outcome of \<^verbatim>\<open>camera.release()\<close>: \<open>None\<close> when it
  returns, otherwise the text of the exception, raised before the globals are reset.
\<close>

definition stop_camera :: "string option \<Rightarrow> state \<Rightarrow> response \<times> state" where
  "stop_camera release s =
     (if camera s = None
      then ([(''status'', JStr ''Camera is not running''), (''success'', JBool False)], s)
      else (case release of
        Some e \<Rightarrow> ([(''status'', JStr (''Error: '' @ e)), (''success'', JBool False)], s)
      | None \<Rightarrow>
          ([(''status'', JStr ''Camera stopped successfully''), (''success'', JBool True)],
           s\<lparr>camera := None, output_frame := None\<rparr>)))"

text \<open>
  \<^verbatim>\<open>toggle_detection\<close>. Nothing in its \<^verbatim>\<open>try\<close> block can raise (a negation, a log line
  and the construction of the response), so its \<^verbatim>\<open>except\<close> arm has no input.
\<close>

definition toggle_detection :: "state \<Rightarrow> response \<times> state" where
  "toggle_detection s =
     (if camera s = None
      then ([(''status'', JStr ''Camera is not running''), (''success'', JBool False)], s)
      else (let s1 = s\<lparr>detection_enabled := \<not> detection_enabled s\<rparr>
            in ([(''status'', JStr ''Detection toggled successfully''),
                 (''detection_enabled'', JBool (detection_enabled s1)),
                 (''success'', JBool True)], s1)))"

text \<open>\<^verbatim>\<open>get_status\<close>; \<open>sk\<close> is the outcome of the socket query of \<^verbatim>\<open>get_ip_address\<close>.\<close>

definition get_status :: "string + string \<Rightarrow> state \<Rightarrow> response \<times> state" where
  "get_status sk s =
     (let camera_running = (camera s \<noteq> None)
      in ([(''camera_running'', JBool camera_running),
           (''detection_enabled'', JBool (if camera_running then detection_enabled s else False)),
           (''server_ip'', JStr (get_ip_address sk))], s))"

section \<open>A concrete session\<close>

text \<open>
  A small run of the server used to evaluate the properties below: the camera opens, the
  request is the one the page sends, and the capture thread has made one pass on a frame
  for which inference raised. \<open>quiescent s\<close> is the schedule in which no other thread
  touches the globals while the generator polls.
\<close>

definition quiescent :: "state \<Rightarrow> nat \<Rightarrow> state" where
  "quiescent s k = s"

definition example_frame :: image where
  "example_frame = \<lparr>height = 480, pixels = 7, drawn = []\<rparr>"

definition example_tick :: tick where
  "example_tick = \<lparr>read_result = Some example_frame, hub_load = True,
     inference_result = Inl ''inference failed'', sock = Inr ''192.168.1.5''\<rparr>"

definition example_running :: state where
  "example_running =
     snd (capture_iter example_tick (snd (start_camera (Inr True) (JsonObject (Some True)) initial)))"

text \<open>
  The same session with a further pass in flight: the capture thread has read and
  annotated a frame and stands before line 142.
\<close>

definition example_in_flight :: state where
  "example_in_flight = snd (capture_annotate example_tick example_running)"

definition example_imencode :: "image \<Rightarrow> string + bool \<times> string" where
  "example_imencode img = Inr (True, ''jpeg'')"

section \<open>Frame buffers are only written at the address drawn on\<close>

lemma draw_on_fields [simp]:
  "camera (draw_on a d s) = camera s"
  "output_frame (draw_on a d s) = output_frame s"
  "detection_enabled (draw_on a d s) = detection_enabled s"
  "model (draw_on a d s) = model s"
  "captures_created (draw_on a d s) = captures_created s"
  "threads_started (draw_on a d s) = threads_started s"
  "length (store (draw_on a d s)) = length (store s)"
  by (simp_all add: draw_on_def)

lemma draw_on_other [simp]: "b \<noteq> a \<Longrightarrow> store (draw_on a d s) ! b = store s ! b"
  by (simp add: draw_on_def)

lemma draw_on_same:
  "a < length (store s) \<Longrightarrow>
     store (draw_on a d s) ! a = (store s ! a)\<lparr>drawn := drawn (store s ! a) @ [d]\<rparr>"
  by (simp add: draw_on_def)

lemma draw_detection_fields [simp]:
  "camera (draw_detection a d s) = camera s"
  "output_frame (draw_detection a d s) = output_frame s"
  "detection_enabled (draw_detection a d s) = detection_enabled s"
  "model (draw_detection a d s) = model s"
  "captures_created (draw_detection a d s) = captures_created s"
  "threads_started (draw_detection a d s) = threads_started s"
  "length (store (draw_detection a d s)) = length (store s)"
  by (simp_all add: draw_detection_def)

lemma draw_detection_other [simp]:
  "b \<noteq> a \<Longrightarrow> store (draw_detection a d s) ! b = store s ! b"
  by (simp add: draw_detection_def)

lemma fold_draw_detection_fields [simp]:
  "camera (fold (draw_detection a) ds s) = camera s"
  "output_frame (fold (draw_detection a) ds s) = output_frame s"
  "detection_enabled (fold (draw_detection a) ds s) = detection_enabled s"
  "model (fold (draw_detection a) ds s) = model s"
  "captures_created (fold (draw_detection a) ds s) = captures_created s"
  "threads_started (fold (draw_detection a) ds s) = threads_started s"
  "length (store (fold (draw_detection a) ds s)) = length (store s)"
  by (induction ds arbitrary: s; simp)+

lemma fold_draw_detection_other [simp]:
  "b \<noteq> a \<Longrightarrow> store (fold (draw_detection a) ds s) ! b = store s ! b"
  by (induction ds arbitrary: s) simp_all

lemma fold_draw_detection_same:
  "a < length (store s) \<Longrightarrow>
     \<exists>boxes. store (fold (draw_detection a) ds s) ! a
        = (store s ! a)\<lparr>drawn := drawn (store s ! a) @ boxes\<rparr>"
proof (induction ds arbitrary: s)
  case Nil
  have "store s ! a = (store s ! a)\<lparr>drawn := drawn (store s ! a) @ []\<rparr>" by simp
  then show ?case by (metis fold_simps(1))
next
  case (Cons d ds)
  let ?s1 = "draw_detection a d s"
  have len: "a < length (store ?s1)" using Cons.prems by simp
  obtain bs where bs: "store (fold (draw_detection a) ds ?s1) ! a
        = (store ?s1 ! a)\<lparr>drawn := drawn (store ?s1 ! a) @ bs\<rparr>"
    using Cons.IH [OF len] by blast
  have s1: "store ?s1 ! a = (store s ! a)\<lparr>drawn := drawn (store s ! a) @
      [Rectangle (xmin d, ymin d) (xmax d, ymax d),
       PutText (det_name d @ '' '' @ confidence d) (xmin d, ymin d - 10)]\<rparr>"
    using Cons.prems by (simp add: draw_detection_def draw_on_same)
  show ?case
    apply (rule exI [of _ "[Rectangle (xmin d, ymin d) (xmax d, ymax d),
       PutText (det_name d @ '' '' @ confidence d) (xmin d, ymin d - 10)] @ bs"])
    using bs s1 by simp
qed

lemma detect_objects_frame [simp]: "fst (detect_objects hub ir frame s) = frame"
  by (simp add: detect_objects_def Let_def split: sum.splits)

lemma detect_objects_fields [simp]:
  "camera (snd (detect_objects hub ir frame s)) = camera s"
  "output_frame (snd (detect_objects hub ir frame s)) = output_frame s"
  "detection_enabled (snd (detect_objects hub ir frame s)) = detection_enabled s"
  "captures_created (snd (detect_objects hub ir frame s)) = captures_created s"
  "threads_started (snd (detect_objects hub ir frame s)) = threads_started s"
  "length (store (snd (detect_objects hub ir frame s))) = length (store s)"
  by (simp_all add: detect_objects_def load_model_def Let_def split: sum.splits)

lemma detect_objects_other [simp]:
  "b \<noteq> frame \<Longrightarrow> store (snd (detect_objects hub ir frame s)) ! b = store s ! b"
  by (simp add: detect_objects_def load_model_def Let_def split: sum.splits)

lemma detect_objects_raises [simp]:
  "store (snd (detect_objects hub (Inl e) frame s)) = store s"
  by (simp add: detect_objects_def load_model_def Let_def)

lemma detect_objects_same:
  assumes "frame < length (store s)"
  shows "\<exists>boxes. store (snd (detect_objects hub ir frame s)) ! frame
        = (store s ! frame)\<lparr>drawn := drawn (store s ! frame) @ boxes\<rparr>"
proof -
  have triv: "\<And>s'. store s' = store s \<Longrightarrow> \<exists>boxes. store s' ! frame
        = (store s ! frame)\<lparr>drawn := drawn (store s ! frame) @ boxes\<rparr>"
    by (rule exI [of _ "[]"]) simp
  show ?thesis
  proof (cases ir)
    case (Inl e)
    then have "store (snd (detect_objects hub ir frame s)) = store s" by simp
    then show ?thesis by (rule triv)
  next
    case (Inr ds)
    show ?thesis
    proof (cases "model s = None \<and> \<not> hub")
      case True
      then have "store (snd (detect_objects hub ir frame s)) = store s"
        by (simp add: detect_objects_def load_model_def Let_def)
      then show ?thesis by (rule triv)
    next
      case False
      define s1 where "s1 = (if model s = None then s\<lparr>model := Some (Yolo 45 45 50)\<rparr> else s)"
      have s1: "store s1 = store s" by (simp add: s1_def)
      have d: "snd (detect_objects hub ir frame s) = fold (draw_detection frame) ds s1"
        using False Inr by (auto simp add: detect_objects_def load_model_def Let_def s1_def)
      from fold_draw_detection_same [of frame s1 ds] assms s1 d show ?thesis by simp
    qed
  qed
qed

section \<open>One pass of the capture loop\<close>

lemma capture_iter_stopped: "camera s = None \<Longrightarrow> capture_iter t s = (Break, s)"
  by (simp add: capture_iter_def capture_annotate_def)

lemma capture_iter_read_failed:
  "camera s \<noteq> None \<Longrightarrow> read_result t = None \<Longrightarrow> capture_iter t s = (Continue, s)"
  by (simp add: capture_iter_def capture_annotate_def)

lemma capture_iter_publish:
  assumes cam: "camera s \<noteq> None" and rd: "read_result t = Some raw"
  shows "\<exists>boxes s'. capture_iter t s = (Continue, s')
     \<and> camera s' = camera s \<and> detection_enabled s' = detection_enabled s
     \<and> captures_created s' = captures_created s \<and> threads_started s' = threads_started s
     \<and> length (store s') = length (store s) + 2
     \<and> (\<forall>a < length (store s). store s' ! a = store s ! a)
     \<and> output_frame s' = Some (Suc (length (store s)))
     \<and> (isl (inference_result t) \<or> \<not> detection_enabled s \<longrightarrow> boxes = [])
     \<and> store s' ! length (store s) = store s' ! Suc (length (store s))
     \<and> store s' ! Suc (length (store s)) = raw\<lparr>drawn := drawn raw @ boxes @
          [PutText (''Detection: '' @ (if detection_enabled s then ''ON'' else ''OFF'')) (10, 30),
           PutText (''Access: http://'' @ get_ip_address (sock t) @ '':5000'')
             (10, height raw - 10)]\<rparr>"
proof -
  let ?n = "length (store s)"
  define s1 where "s1 = s\<lparr>store := store s @ [raw]\<rparr>"
  define s2 where "s2 = (if detection_enabled s1
      then snd (detect_objects (hub_load t) (inference_result t) ?n s1) else s1)"
  define s3 where "s3 = draw_on ?n
      (PutText (''Detection: '' @ (if detection_enabled s2 then ''ON'' else ''OFF'')) (10, 30)) s2"
  define s4 where "s4 = draw_on ?n
      (PutText (''Access: http://'' @ get_ip_address (sock t) @ '':5000'')
         (10, height (store s3 ! ?n) - 10)) s3"
  define s5 where "s5 = s4\<lparr>store := store s4 @ [store s4 ! ?n], output_frame := Some (length (store s4))\<rparr>"
  have step: "capture_iter t s = (Continue, s5)"
    using cam rd
    by (simp add: capture_iter_def capture_annotate_def capture_publish_def alloc_def copy_def
        s1_def s2_def s3_def s4_def s5_def
        Let_def split_beta)
  have l1: "length (store s1) = ?n + 1" and n1: "store s1 ! ?n = raw"
    and o1: "\<forall>a < ?n. store s1 ! a = store s ! a"
    by (simp_all add: s1_def nth_append)
  have f2: "camera s2 = camera s" "detection_enabled s2 = detection_enabled s"
    "captures_created s2 = captures_created s" "threads_started s2 = threads_started s"
    "length (store s2) = ?n + 1"
    by (simp_all add: s2_def s1_def)
  have o2: "\<forall>a < ?n. store s2 ! a = store s ! a"
    using o1 by (simp add: s2_def)
  have "\<exists>boxes. store s2 ! ?n = raw\<lparr>drawn := drawn raw @ boxes\<rparr>
      \<and> (isl (inference_result t) \<or> \<not> detection_enabled s \<longrightarrow> boxes = [])"
  proof (cases "detection_enabled s")
    case False
    then have "store s2 ! ?n = raw\<lparr>drawn := drawn raw @ []\<rparr>"
      using n1 by (simp add: s2_def s1_def)
    then show ?thesis using False by blast
  next
    case True
    show ?thesis
    proof (cases "inference_result t")
      case (Inl e)
      then have "store s2 ! ?n = raw\<lparr>drawn := drawn raw @ []\<rparr>"
        using n1 by (simp add: s2_def)
      then show ?thesis by blast
    next
      case (Inr ds)
      have "?n < length (store s1)" using l1 by simp
      from detect_objects_same [OF this, of "hub_load t" "inference_result t"]
      obtain bs where "store (snd (detect_objects (hub_load t) (inference_result t) ?n s1)) ! ?n
         = (store s1 ! ?n)\<lparr>drawn := drawn (store s1 ! ?n) @ bs\<rparr>" by blast
      then have "store s2 ! ?n = raw\<lparr>drawn := drawn raw @ bs\<rparr>"
        using True n1 by (simp add: s2_def s1_def)
      then show ?thesis using True Inr by auto
    qed
  qed
  then obtain boxes where b2: "store s2 ! ?n = raw\<lparr>drawn := drawn raw @ boxes\<rparr>"
    and bnil: "isl (inference_result t) \<or> \<not> detection_enabled s \<longrightarrow> boxes = []" by blast
  have f3: "camera s3 = camera s" "detection_enabled s3 = detection_enabled s"
    "captures_created s3 = captures_created s" "threads_started s3 = threads_started s"
    "length (store s3) = ?n + 1"
    using f2 by (simp_all add: s3_def)
  have o3: "\<forall>a < ?n. store s3 ! a = store s ! a"
    using o2 by (simp add: s3_def)
  have b3: "store s3 ! ?n = raw\<lparr>drawn := drawn raw @ boxes @
      [PutText (''Detection: '' @ (if detection_enabled s then ''ON'' else ''OFF'')) (10, 30)]\<rparr>"
    using b2 f2 by (simp add: s3_def draw_on_same)
  have f4: "camera s4 = camera s" "detection_enabled s4 = detection_enabled s"
    "captures_created s4 = captures_created s" "threads_started s4 = threads_started s"
    "length (store s4) = ?n + 1"
    using f3 by (simp_all add: s4_def)
  have o4: "\<forall>a < ?n. store s4 ! a = store s ! a"
    using o3 by (simp add: s4_def)
  have b4: "store s4 ! ?n = raw\<lparr>drawn := drawn raw @ boxes @
      [PutText (''Detection: '' @ (if detection_enabled s then ''ON'' else ''OFF'')) (10, 30),
       PutText (''Access: http://'' @ get_ip_address (sock t) @ '':5000'') (10, height raw - 10)]\<rparr>"
    using b3 f3 by (simp add: s4_def draw_on_same)
  have "camera s5 = camera s" "detection_enabled s5 = detection_enabled s"
    "captures_created s5 = captures_created s" "threads_started s5 = threads_started s"
    "length (store s5) = ?n + 2" "output_frame s5 = Some (Suc ?n)"
    "\<forall>a < ?n. store s5 ! a = store s ! a"
    "store s5 ! Suc ?n = store s4 ! ?n" "store s5 ! ?n = store s4 ! ?n"
    using f4 o4 by (simp_all add: s5_def nth_append)
  with step b4 bnil show ?thesis by auto
qed

lemma capture_iter_keeps:
  "camera (snd (capture_iter t s)) = camera s"
  "detection_enabled (snd (capture_iter t s)) = detection_enabled s"
  "length (store s) \<le> length (store (snd (capture_iter t s)))"
  "a < length (store s) \<Longrightarrow> store (snd (capture_iter t s)) ! a = store s ! a"
proof -
  consider "camera s = None" | "camera s \<noteq> None" "read_result t = None"
    | raw where "camera s \<noteq> None" "read_result t = Some raw" by blast
  then have "camera (snd (capture_iter t s)) = camera s
    \<and> detection_enabled (snd (capture_iter t s)) = detection_enabled s
    \<and> length (store s) \<le> length (store (snd (capture_iter t s)))
    \<and> (a < length (store s) \<longrightarrow> store (snd (capture_iter t s)) ! a = store s ! a)"
  proof cases
    case 1
    then show ?thesis by (simp add: capture_iter_stopped)
  next
    case 2
    then show ?thesis by (simp add: capture_iter_read_failed)
  next
    case 3
    from capture_iter_publish [OF 3] show ?thesis by auto
  qed
  then show "camera (snd (capture_iter t s)) = camera s"
    "detection_enabled (snd (capture_iter t s)) = detection_enabled s"
    "length (store s) \<le> length (store (snd (capture_iter t s)))"
    "a < length (store s) \<Longrightarrow> store (snd (capture_iter t s)) ! a = store s ! a"
    by simp_all
qed


lemma capture_loop_keeps:
  "camera (snd (capture_loop ts s)) = camera s
   \<and> detection_enabled (snd (capture_loop ts s)) = detection_enabled s
   \<and> length (store s) \<le> length (store (snd (capture_loop ts s)))
   \<and> (\<forall>a < length (store s). store (snd (capture_loop ts s)) ! a = store s ! a)"
proof (induction ts arbitrary: s)
  case Nil
  then show ?case by simp
next
  case (Cons t ts)
  obtain c s' where it: "capture_iter t s = (c, s')" by (cases "capture_iter t s")
  have k: "camera s' = camera s" "detection_enabled s' = detection_enabled s"
    "length (store s) \<le> length (store s')"
    "\<forall>a < length (store s). store s' ! a = store s ! a"
    using capture_iter_keeps [where t = t and s = s] it by simp_all
  show ?case
  proof (cases c)
    case Break
    then show ?thesis using it k by simp
  next
    case Continue
    then have "capture_loop (t # ts) s = capture_loop ts s'" using it by simp
    then show ?thesis using Cons.IH [of s'] k by auto
  qed
qed

lemma capture_loop_snoc:
  "capture_loop (ts @ [t]) s =
     (case capture_loop ts s of (Break, s') \<Rightarrow> (Break, s') | (Continue, s') \<Rightarrow> capture_iter t s')"
proof (induction ts arbitrary: s)
  case Nil
  show ?case by (cases "capture_iter t s") (simp split: loop_ctl.splits)
next
  case (Cons u us)
  show ?case by (cases "capture_iter u s") (simp add: Cons.IH split: loop_ctl.splits)
qed

lemma capture_loop_running:
  assumes "camera s \<noteq> None"
  shows "fst (capture_loop ts s) = Continue"
using assms
proof (induction ts arbitrary: s)
  case Nil
  then show ?case by simp
next
  case (Cons t ts)
  obtain c s' where it: "capture_iter t s = (c, s')" by (cases "capture_iter t s")
  have c: "c = Continue"
  proof (cases "read_result t")
    case None
    then show ?thesis using Cons.prems it by (simp add: capture_iter_read_failed)
  next
    case (Some raw)
    from capture_iter_publish [OF Cons.prems Some] it show ?thesis by auto
  qed
  have "camera s' \<noteq> None" using capture_iter_keeps(1) [where t = t and s = s] it Cons.prems by simp
  from Cons.IH [OF this] show ?case using it c by simp
qed

lemma capture_loop_stopped: "camera s = None \<Longrightarrow> snd (capture_loop ts s) = s"
  by (cases ts) (simp_all add: capture_iter_stopped)


section \<open>Handlers and generator\<close>

lemma stop_camera_success:
  "map_of (fst (stop_camera release s)) ''success'' = Some (JBool True) \<longleftrightarrow>
     camera s \<noteq> None \<and> release = None"
  by (simp add: stop_camera_def split: option.splits)


lemma generate_next_yields:
  assumes "generate_next imencode st k = Some r"
  shows "\<exists>j\<ge>k. output_frame (st j) \<noteq> None"
proof (rule generate_next.raw_induct
    [where P = "\<lambda>(e :: image \<Rightarrow> string + bool \<times> string) st k (r :: string \<times> nat). \<exists>j\<ge>k. output_frame (st j) \<noteq> None",
     OF _ assms])
  fix f :: "(image \<Rightarrow> string + bool \<times> string) \<Rightarrow> (nat \<Rightarrow> state) \<Rightarrow> nat \<Rightarrow> (string \<times> nat) option"
  fix e :: "image \<Rightarrow> string + bool \<times> string" and st :: "nat \<Rightarrow> state" and k :: nat
    and r :: "string \<times> nat"
  assume IH: "\<And>e st k r. f e st k = Some r \<Longrightarrow> \<exists>j\<ge>k. output_frame (st j) \<noteq> None"
  assume body: "(case output_frame (st k) of
        None \<Rightarrow> f e st (Suc k)
      | Some a \<Rightarrow>
          (case e (store (st k) ! a) of
             Inl x \<Rightarrow> f e st (Suc k)
           | Inr (flag, encoded_frame) \<Rightarrow>
               if \<not> flag then f e st (Suc k)
               else Some (chunk encoded_frame, Suc k))) = Some r"
  show "\<exists>j\<ge>k. output_frame (st j) \<noteq> None"
  proof (cases "output_frame (st k)")
    case None
    have "f e st (Suc k) = Some r" using body unfolding None by (simp only: option.case)
    from IH [OF this] obtain j where j: "Suc k \<le> j" "output_frame (st j) \<noteq> None" by blast
    from j(1) have "k \<le> j" by simp
    with j(2) show ?thesis by blast
  next
    case (Some a)
    have "k \<le> k" by simp
    moreover have "output_frame (st k) \<noteq> None" unfolding Some by simp
    ultimately show ?thesis by blast
  qed
qed


lemma generate_next_present:
  "output_frame (st k) = Some a \<Longrightarrow> imencode (store (st k) ! a) = Inr (True, buf) \<Longrightarrow>
     generate_next imencode st k = Some (chunk buf, Suc k)"
  by (subst generate_next.simps) simp

lemma example_running_eq:
  "example_running =
     \<lparr>camera = Some (VideoCapture True), output_frame = Some 1, detection_enabled = True,
      model = Some (Yolo 45 45 50),
      store = [\<lparr>height = 480, pixels = 7, drawn =
                 [PutText ''Detection: ON'' (10, 30),
                  PutText ''Access: http://192.168.1.5:5000'' (10, 470)]\<rparr>,
               \<lparr>height = 480, pixels = 7, drawn =
                 [PutText ''Detection: ON'' (10, 30),
                  PutText ''Access: http://192.168.1.5:5000'' (10, 470)]\<rparr>],
      captures_created = 1, threads_started = 1\<rparr>"
  by (simp add: example_running_def example_tick_def example_frame_def start_camera_def
      initial_def capture_iter_def capture_annotate_def capture_publish_def alloc_def copy_def
      draw_on_def detect_objects_def
      load_model_def get_ip_address_def Let_def)

lemma example_in_flight_eq:
  "capture_annotate example_tick example_running = (Annotated 2, example_in_flight)"
  "example_in_flight = example_running\<lparr>store := store example_running @
       [\<lparr>height = 480, pixels = 7, drawn =
          [PutText ''Detection: ON'' (10, 30),
           PutText ''Access: http://192.168.1.5:5000'' (10, 470)]\<rparr>]\<rparr>"
  by (simp_all add: example_in_flight_def example_running_eq example_tick_def example_frame_def
      capture_annotate_def alloc_def draw_on_def detect_objects_def load_model_def
      get_ip_address_def Let_def)

section \<open>Properties\<close>

text \<open>
  C1. For every sequence of start and stop calls the camera global should be set exactly
  when the session is running. The code breaks this on the path where the device does
  not open: on a fresh server \<^verbatim>\<open>start_camera\<close> answers "Failed to open camera" with success
  false and starts no capture thread, yet it leaves the unopened \<^verbatim>\<open>VideoCapture\<close> object
  in \<^verbatim>\<open>camera\<close>. From then on \<^verbatim>\<open>get_status\<close> reports \<^verbatim>\<open>camera_running\<close> true and a
  further \<^verbatim>\<open>start_camera\<close>, even with a working device, answers "Camera is already
  running".
\<close>

theorem failed_open_leaves_camera_set:
  "start_camera (Inr False) req initial =
     ([(''status'', JStr ''Failed to open camera''), (''success'', JBool False)],
      initial\<lparr>camera := Some (VideoCapture False), captures_created := 1\<rparr>)
   \<and> camera (snd (start_camera (Inr False) req initial)) \<noteq> None
   \<and> threads_started (snd (start_camera (Inr False) req initial)) = 0
   \<and> map_of (fst (get_status sk (snd (start_camera (Inr False) req initial)))) ''camera_running''
       = Some (JBool True)
   \<and> fst (start_camera (Inr True) req' (snd (start_camera (Inr False) req initial)))
       = [(''status'', JStr ''Camera is already running'')]"
  by (simp add: start_camera_def get_status_def initial_def)

text \<open>
  C2. With the model file absent, \<^verbatim>\<open>start_camera\<close> should answer with success false. The
  handler never looks at the file: on a fresh server with a working camera it answers
  "Camera started successfully" with success true. The check sits in the capture thread,
  which returns at once, whatever the camera would deliver, and leaves \<^verbatim>\<open>camera\<close> set
  and the slot empty.
\<close>

theorem start_succeeds_without_model_file:
  "fst (start_camera (Inr True) (JsonObject (Some True)) initial) =
     [(''status'', JStr ''Camera started successfully''), (''success'', JBool True)]
   \<and> capture_frames False hub ticks (snd (start_camera (Inr True) (JsonObject (Some True)) initial))
       = (Break, snd (start_camera (Inr True) (JsonObject (Some True)) initial))
   \<and> camera (snd (start_camera (Inr True) (JsonObject (Some True)) initial)) \<noteq> None
   \<and> output_frame (snd (start_camera (Inr True) (JsonObject (Some True)) initial)) = None"
  by (simp add: start_camera_def capture_frames_def check_model_file_def initial_def)

text \<open>
  C3, as the code has it. A call of \<^verbatim>\<open>next()\<close> on the generator that finds the slot empty
  at this and every later acquisition of the lock never returns: it yields no chunk and
  it does not end the response. \<^verbatim>\<open>generate\<close> has no exit from its loop.
\<close>

theorem generate_polls_forever_on_empty_slot:
  assumes "\<forall>j\<ge>k. output_frame (st j) = None"
  shows "generate_next imencode st k = None"
proof (rule ccontr)
  assume "generate_next imencode st k \<noteq> None"
  then obtain r where "generate_next imencode st k = Some r"
    by (simp only: not_None_eq) (erule exE)
  from generate_next_yields [OF this] obtain j
    where j: "k \<le> j" "output_frame (st j) \<noteq> None" by (elim exE conjE)
  from assms j(1) have "output_frame (st j) = None" by (elim allE impE)
  with j(2) show False by (elim notE)
qed

theorem generate_polls_forever_on_empty_slot_witness:
  "output_frame (snd (stop_camera None example_running)) = None
   \<and> generate_next example_imencode (quiescent (snd (stop_camera None example_running))) 0 = None"
proof -
  have e: "output_frame (snd (stop_camera None example_running)) = None"
    by (simp add: stop_camera_def example_running_eq)
  then have h: "\<forall>j\<ge>0. output_frame (quiescent (snd (stop_camera None example_running)) j) = None"
    by (simp add: quiescent_def)
  from generate_polls_forever_on_empty_slot [OF h] e show ?thesis by (intro conjI)
qed

text \<open>
  C3, as the claim states it, at the concrete session: before the stop the generator is
  active and its \<^verbatim>\<open>next()\<close> yields the chunk of the published frame; the stop succeeds;
  after it, with no other thread running, \<^verbatim>\<open>next()\<close> does not return, so the response
  is never ended.
\<close>

theorem generate_after_stop_counterexample:
  "generate_next example_imencode (quiescent example_running) 0 = Some (chunk ''jpeg'', 1)
   \<and> map_of (fst (stop_camera None example_running)) ''success'' = Some (JBool True)
   \<and> generate_next example_imencode (quiescent (snd (stop_camera None example_running))) 0
       = None"
proof -
  have a: "generate_next example_imencode (quiescent example_running) 0 = Some (chunk ''jpeg'', 1)"
  proof -
    have "output_frame (quiescent example_running 0) = Some 1"
      by (simp add: quiescent_def example_running_eq)
    moreover have "example_imencode (store (quiescent example_running 0) ! 1) = Inr (True, ''jpeg'')"
      by (simp add: example_imencode_def)
    ultimately have "generate_next example_imencode (quiescent example_running) 0
        = Some (chunk ''jpeg'', Suc 0)"
      by (rule generate_next_present)
    then show ?thesis by simp
  qed
  have b: "map_of (fst (stop_camera None example_running)) ''success'' = Some (JBool True)"
    by (simp add: stop_camera_success example_running_eq)
  have c: "generate_next example_imencode (quiescent (snd (stop_camera None example_running))) 0
       = None"
  proof (rule ccontr)
    assume "generate_next example_imencode (quiescent (snd (stop_camera None example_running))) 0
       \<noteq> None"
    then obtain r where
      "generate_next example_imencode (quiescent (snd (stop_camera None example_running))) 0
         = Some r"
      by (simp only: not_None_eq) (erule exE)
    from generate_next_yields [OF this] obtain j
      where "output_frame (quiescent (snd (stop_camera None example_running)) j) \<noteq> None"
      by (elim exE conjE)
    then show False by (simp add: quiescent_def stop_camera_def example_running_eq)
  qed
  from a b c show ?thesis by (intro conjI)
qed

text \<open>
  C4. After a \<^verbatim>\<open>stop_camera\<close> that reports success the slot should be empty and stay so.
  The handler does empty it, but a pass of the capture loop that is in flight at that
  moment, with its frame read and annotated, still runs its unguarded publish: at the
  concrete session the stop succeeds and leaves the slot empty, the publish of the pass in
  flight then puts the frame captured before the stop into the slot, the next pass leaves
  the loop without touching the slot, and a further \<^verbatim>\<open>stop_camera\<close> answers "Camera is not
  running" and clears nothing, so the frame stays in the slot and the generator serves
  it.
\<close>

theorem in_flight_pass_republishes_after_stop:
  "capture_annotate example_tick example_running = (Annotated 2, example_in_flight)
   \<and> map_of (fst (stop_camera None example_in_flight)) ''success'' = Some (JBool True)
   \<and> slot (snd (stop_camera None example_in_flight)) = None
   \<and> slot (capture_publish 2 (snd (stop_camera None example_in_flight))) =
        Some \<lparr>height = 480, pixels = 7, drawn =
          [PutText ''Detection: ON'' (10, 30),
           PutText ''Access: http://192.168.1.5:5000'' (10, 470)]\<rparr>
   \<and> capture_iter t (capture_publish 2 (snd (stop_camera None example_in_flight))) =
        (Break, capture_publish 2 (snd (stop_camera None example_in_flight)))
   \<and> stop_camera release (capture_publish 2 (snd (stop_camera None example_in_flight))) =
        ([(''status'', JStr ''Camera is not running''), (''success'', JBool False)],
         capture_publish 2 (snd (stop_camera None example_in_flight)))
   \<and> generate_next example_imencode
         (quiescent (capture_publish 2 (snd (stop_camera None example_in_flight)))) 0 =
        Some (chunk ''jpeg'', 1)"
proof -
  let ?s = "capture_publish 2 (snd (stop_camera None example_in_flight))"
  have cam: "camera ?s = None"
    by (simp add: capture_publish_def copy_def alloc_def stop_camera_def example_in_flight_eq(2)
        example_running_eq)
  have out: "output_frame ?s = Some 3"
    by (simp add: capture_publish_def copy_def alloc_def stop_camera_def example_in_flight_eq(2)
        example_running_eq)
  have 1: "map_of (fst (stop_camera None example_in_flight)) ''success'' = Some (JBool True)"
    by (simp add: stop_camera_def example_in_flight_eq(2) example_running_eq)
  have 2: "slot (snd (stop_camera None example_in_flight)) = None"
    by (simp add: slot_def stop_camera_def example_in_flight_eq(2) example_running_eq)
  have 3: "slot ?s = Some \<lparr>height = 480, pixels = 7, drawn =
          [PutText ''Detection: ON'' (10, 30),
           PutText ''Access: http://192.168.1.5:5000'' (10, 470)]\<rparr>"
    by (simp add: slot_def capture_publish_def copy_def alloc_def stop_camera_def
        example_in_flight_eq(2) example_running_eq)
  have 4: "capture_iter t ?s = (Break, ?s)"
    using cam by (rule capture_iter_stopped)
  have 5: "stop_camera release ?s =
        ([(''status'', JStr ''Camera is not running''), (''success'', JBool False)], ?s)"
    using cam by (simp add: stop_camera_def)
  have 6: "generate_next example_imencode (quiescent ?s) 0 = Some (chunk ''jpeg'', 1)"
  proof -
    have "output_frame (quiescent ?s 0) = Some 3"
      using out by (simp add: quiescent_def)
    moreover have "example_imencode (store (quiescent ?s 0) ! 3) = Inr (True, ''jpeg'')"
      by (simp add: example_imencode_def)
    ultimately have "generate_next example_imencode (quiescent ?s) 0 = Some (chunk ''jpeg'', Suc 0)"
      by (rule generate_next_present)
    then show ?thesis by simp
  qed
  from example_in_flight_eq(1) 1 2 3 4 5 6 show ?thesis by (intro conjI)
qed

text \<open>
  C5, as the code has it. \<^verbatim>\<open>toggle_detection\<close> with the camera global unset answers
  "Camera is not running" with success false and changes nothing. With the camera global
  set, as it is while a session runs, it negates \<^verbatim>\<open>detection_enabled\<close> and returns the new
  value, and every frame published
  afterwards by a pass of the capture loop that began after the toggle, no handler running
  in between, carries the status text of the new value, "Detection: ON" or
  "Detection: OFF", at (10, 30), drawn after any boxes and before the address line.
\<close>

theorem toggle_detection_contract:
  "(camera s = None \<longrightarrow>
      toggle_detection s =
        ([(''status'', JStr ''Camera is not running''), (''success'', JBool False)], s))
   \<and> (camera s \<noteq> None \<longrightarrow>
      toggle_detection s =
        ([(''status'', JStr ''Detection toggled successfully''),
          (''detection_enabled'', JBool (\<not> detection_enabled s)),
          (''success'', JBool True)],
         s\<lparr>detection_enabled := \<not> detection_enabled s\<rparr>)
      \<and> (\<forall>ts t raw. read_result t = Some raw \<longrightarrow>
             (\<exists>boxes. slot (snd (capture_loop (ts @ [t]) (snd (toggle_detection s)))) =
                Some (raw\<lparr>drawn := drawn raw @ boxes @
                  [PutText (''Detection: '' @ (if \<not> detection_enabled s then ''ON'' else ''OFF''))
                     (10, 30),
                   PutText (''Access: http://'' @ get_ip_address (sock t) @ '':5000'')
                     (10, height raw - 10)]\<rparr>))))"
proof (intro conjI impI allI)
  assume "camera s = None"
  then show "toggle_detection s =
        ([(''status'', JStr ''Camera is not running''), (''success'', JBool False)], s)"
    by (simp add: toggle_detection_def)
next
  assume "camera s \<noteq> None"
  then show "toggle_detection s =
        ([(''status'', JStr ''Detection toggled successfully''),
          (''detection_enabled'', JBool (\<not> detection_enabled s)),
          (''success'', JBool True)],
         s\<lparr>detection_enabled := \<not> detection_enabled s\<rparr>)"
    by (simp add: toggle_detection_def Let_def)
next
  fix ts :: "tick list" and t :: tick and raw
  assume cam: "camera s \<noteq> None" and rd: "read_result t = Some raw"
  let ?s1 = "s\<lparr>detection_enabled := \<not> detection_enabled s\<rparr>"
  have tg: "snd (toggle_detection s) = ?s1"
    using cam by (simp add: toggle_detection_def Let_def)
  have cam1: "camera ?s1 \<noteq> None" using cam by simp
  obtain c s2 where l: "capture_loop ts ?s1 = (c, s2)" by (cases "capture_loop ts ?s1")
  have c: "c = Continue" using capture_loop_running [OF cam1, of ts] l by simp
  have k: "camera s2 = camera ?s1" "detection_enabled s2 = (\<not> detection_enabled s)"
    using capture_loop_keeps [of ts ?s1] l by simp_all
  have step: "capture_loop (ts @ [t]) ?s1 = capture_iter t s2"
    using l c by (simp add: capture_loop_snoc)
  have cam2: "camera s2 \<noteq> None" using k cam1 by simp
  from capture_iter_publish [OF cam2 rd] obtain boxes s3 where
    "capture_iter t s2 = (Continue, s3)"
    "output_frame s3 = Some (Suc (length (store s2)))"
    "store s3 ! Suc (length (store s2)) = raw\<lparr>drawn := drawn raw @ boxes @
          [PutText (''Detection: '' @ (if detection_enabled s2 then ''ON'' else ''OFF'')) (10, 30),
           PutText (''Access: http://'' @ get_ip_address (sock t) @ '':5000'')
             (10, height raw - 10)]\<rparr>"
    by blast
  then have "slot (snd (capture_loop (ts @ [t]) (snd (toggle_detection s)))) =
                Some (raw\<lparr>drawn := drawn raw @ boxes @
                  [PutText (''Detection: '' @ (if \<not> detection_enabled s then ''ON'' else ''OFF''))
                     (10, 30),
                   PutText (''Access: http://'' @ get_ip_address (sock t) @ '':5000'')
                     (10, height raw - 10)]\<rparr>)"
    using tg step k by (simp add: slot_def)
  then show "\<exists>boxes. slot (snd (capture_loop (ts @ [t]) (snd (toggle_detection s)))) =
                Some (raw\<lparr>drawn := drawn raw @ boxes @
                  [PutText (''Detection: '' @ (if \<not> detection_enabled s then ''ON'' else ''OFF''))
                     (10, 30),
                   PutText (''Access: http://'' @ get_ip_address (sock t) @ '':5000'')
                     (10, height raw - 10)]\<rparr>)"
    by blast
qed

theorem toggle_detection_contract_witness:
  "camera initial = None
   \<and> toggle_detection initial =
       ([(''status'', JStr ''Camera is not running''), (''success'', JBool False)], initial)
   \<and> camera example_running \<noteq> None \<and> detection_enabled example_running
   \<and> map_of (fst (toggle_detection example_running)) ''detection_enabled'' = Some (JBool False)
   \<and> read_result example_tick = Some example_frame
   \<and> (\<exists>boxes. slot (snd (capture_loop ([example_tick] @ [example_tick])
                          (snd (toggle_detection example_running)))) =
         Some (example_frame\<lparr>drawn := boxes @
           [PutText ''Detection: OFF'' (10, 30),
            PutText ''Access: http://192.168.1.5:5000'' (10, 470)]\<rparr>))"
proof -
  have a: "camera initial = None" by (simp add: initial_def)
  have b: "camera example_running \<noteq> None" "detection_enabled example_running"
    by (simp_all add: example_running_eq)
  have c: "read_result example_tick = Some example_frame" by (simp add: example_tick_def)
  have d: "drawn example_frame = []" "height example_frame = 480"
    "get_ip_address (sock example_tick) = ''192.168.1.5''"
    by (simp_all add: example_frame_def example_tick_def get_ip_address_def)
  note stopped = toggle_detection_contract [of initial, THEN conjunct1, THEN mp, OF a]
  note running = toggle_detection_contract [of example_running, THEN conjunct2, THEN mp, OF b(1)]
  note published = running [THEN conjunct2, THEN spec, THEN spec, THEN spec, THEN mp, OF c]
  have 4: "\<exists>boxes. slot (snd (capture_loop ([example_tick] @ [example_tick])
                          (snd (toggle_detection example_running)))) =
         Some (example_frame\<lparr>drawn := boxes @
           [PutText ''Detection: OFF'' (10, 30),
            PutText ''Access: http://192.168.1.5:5000'' (10, 470)]\<rparr>)"
    using published [of "[example_tick]"] by (simp add: b d)
  have 5: "map_of (fst (toggle_detection example_running)) ''detection_enabled'' = Some (JBool False)"
    using running [THEN conjunct1] by (simp add: b)
  from a stopped b 5 c 4 show ?thesis by (intro conjI)
qed

text \<open>
  C5, as the claim states it, at the concrete session. With a pass in flight, its status
  text "Detection: ON" already drawn, \<^verbatim>\<open>toggle_detection\<close> answers success with the new value
  false, and the frame published next carries "Detection: ON". And in the state a failed
  start leaves behind (C1), where no session runs, \<^verbatim>\<open>toggle_detection\<close> answers success
  instead of "Camera is not running".
\<close>

theorem toggle_in_flight_counterexample:
  "capture_annotate example_tick example_running = (Annotated 2, example_in_flight)
   \<and> map_of (fst (toggle_detection example_in_flight)) ''success'' = Some (JBool True)
   \<and> map_of (fst (toggle_detection example_in_flight)) ''detection_enabled'' = Some (JBool False)
   \<and> slot (capture_publish 2 (snd (toggle_detection example_in_flight))) =
        Some \<lparr>height = 480, pixels = 7, drawn =
          [PutText ''Detection: ON'' (10, 30),
           PutText ''Access: http://192.168.1.5:5000'' (10, 470)]\<rparr>
   \<and> map_of (fst (start_camera (Inr False) NotJson initial)) ''success'' = Some (JBool False)
   \<and> map_of (fst (toggle_detection (snd (start_camera (Inr False) NotJson initial)))) ''success''
        = Some (JBool True)"
proof -
  have 1: "map_of (fst (toggle_detection example_in_flight)) ''success'' = Some (JBool True)"
    and 2: "map_of (fst (toggle_detection example_in_flight)) ''detection_enabled''
        = Some (JBool False)"
    by (simp_all add: toggle_detection_def example_in_flight_eq(2) example_running_eq Let_def)
  have 3: "slot (capture_publish 2 (snd (toggle_detection example_in_flight))) =
        Some \<lparr>height = 480, pixels = 7, drawn =
          [PutText ''Detection: ON'' (10, 30),
           PutText ''Access: http://192.168.1.5:5000'' (10, 470)]\<rparr>"
    by (simp add: slot_def capture_publish_def copy_def alloc_def toggle_detection_def
        example_in_flight_eq(2) example_running_eq Let_def)
  have 4: "map_of (fst (start_camera (Inr False) NotJson initial)) ''success'' = Some (JBool False)"
    and 5: "map_of (fst (toggle_detection (snd (start_camera (Inr False) NotJson initial))))
        ''success'' = Some (JBool True)"
    by (simp_all add: toggle_detection_def start_camera_def initial_def Let_def)
  from example_in_flight_eq(1) 1 2 3 4 5 show ?thesis by (intro conjI)
qed

text \<open>
  C6. A \<^verbatim>\<open>stop_camera\<close> that follows a \<^verbatim>\<open>stop_camera\<close> whose \<^verbatim>\<open>release()\<close> returned answers
  "Camera is not running" and leaves the whole state as it was, camera and slot
  included. A \<^verbatim>\<open>start_camera\<close> that follows a \<^verbatim>\<open>start_camera\<close> whose \<^verbatim>\<open>VideoCapture(0)\<close>
  returned an object answers "Camera is already running" and leaves the whole state as it
  was: no further \<^verbatim>\<open>VideoCapture\<close> is created and no thread is started.
\<close>

theorem start_stop_idempotent:
  "(release1 = None \<longrightarrow>
      stop_camera release2 (snd (stop_camera release1 s)) =
        ([(''status'', JStr ''Camera is not running''), (''success'', JBool False)],
         snd (stop_camera release1 s)))
   \<and> (\<not> isl vc1 \<longrightarrow>
      start_camera vc2 req2 (snd (start_camera vc1 req1 s)) =
        ([(''status'', JStr ''Camera is already running'')], snd (start_camera vc1 req1 s)))"
proof (intro conjI impI)
  assume "release1 = None"
  then have "camera (snd (stop_camera release1 s)) = None"
    by (simp add: stop_camera_def)
  then show "stop_camera release2 (snd (stop_camera release1 s)) =
        ([(''status'', JStr ''Camera is not running''), (''success'', JBool False)],
         snd (stop_camera release1 s))"
    by (simp add: stop_camera_def)
next
  assume "\<not> isl vc1"
  then obtain opened where "vc1 = Inr opened" by (cases vc1) simp_all
  then have "camera (snd (start_camera vc1 req1 s)) \<noteq> None"
    by (simp add: start_camera_def Let_def split: request.splits)
  then show "start_camera vc2 req2 (snd (start_camera vc1 req1 s)) =
        ([(''status'', JStr ''Camera is already running'')], snd (start_camera vc1 req1 s))"
    by (simp add: start_camera_def)
qed

theorem start_stop_idempotent_witness:
  "camera (snd (stop_camera None example_running)) = None
   \<and> stop_camera None (snd (stop_camera None example_running)) =
        ([(''status'', JStr ''Camera is not running''), (''success'', JBool False)],
         snd (stop_camera None example_running))
   \<and> captures_created (snd (start_camera (Inr True) NotJson initial)) = 1
   \<and> start_camera (Inr True) NotJson (snd (start_camera (Inr True) NotJson initial)) =
        ([(''status'', JStr ''Camera is already running'')],
         snd (start_camera (Inr True) NotJson initial))"
proof -
  have a: "camera (snd (stop_camera None example_running)) = None"
    by (simp add: stop_camera_def)
  have b: "captures_created (snd (start_camera (Inr True) NotJson initial)) = 1"
    by (simp add: start_camera_def initial_def)
  have c: "\<not> isl (Inr True :: string + bool)" by simp
  note twice = start_stop_idempotent [where ?release1.0 = None and ?release2.0 = None
      and s = example_running]
    start_stop_idempotent [where ?vc1.0 = "Inr True" and ?vc2.0 = "Inr True"
      and ?req1.0 = NotJson and ?req2.0 = NotJson and s = initial]
  from twice(1) [THEN conjunct1, THEN mp, OF refl] twice(2) [THEN conjunct2, THEN mp, OF c] a b
  show ?thesis by (intro conjI)
qed

text \<open>
  C7. Every response of \<^verbatim>\<open>POST /start_camera\<close> should carry a \<^verbatim>\<open>success\<close> field. The
  response to a start on a session that is already running is the object with the single
  key \<^verbatim>\<open>status\<close>: it has no \<^verbatim>\<open>success\<close> field, whatever the device and the request are.
\<close>

theorem already_running_response_has_no_success:
  "fst (start_camera vc req (snd (start_camera (Inr True) NotJson initial)))
     = [(''status'', JStr ''Camera is already running'')]
   \<and> map_of (fst (start_camera vc req (snd (start_camera (Inr True) NotJson initial)))) ''success''
       = None"
  by (simp add: start_camera_def initial_def)

text \<open>
  C8. While the camera is set and detection is enabled, a pass of the capture loop on
  whose frame the detector raises (after any earlier passes) still publishes that frame,
  with the status line and the address line drawn on it and no box; the loop is still
  running after any number of further passes, and the camera stays set.
\<close>

theorem detector_failure_does_not_stop_capture:
  assumes "camera s \<noteq> None" and "detection_enabled s"
    and "isl (inference_result t')" and "read_result t' = Some raw"
  shows "slot (snd (capture_loop (ts @ [t']) s)) = Some (raw\<lparr>drawn := drawn raw @
          [PutText ''Detection: ON'' (10, 30),
           PutText (''Access: http://'' @ get_ip_address (sock t') @ '':5000'')
             (10, height raw - 10)]\<rparr>)
    \<and> fst (capture_loop (ts @ t' # us) s) = Continue
    \<and> camera (snd (capture_loop (ts @ t' # us) s)) = camera s"
proof -
  obtain c s1 where l: "capture_loop ts s = (c, s1)" by (cases "capture_loop ts s")
  have c: "c = Continue" using capture_loop_running [OF assms(1), of ts] l by simp
  have k: "camera s1 = camera s" "detection_enabled s1"
    using capture_loop_keeps [of ts s] l assms(2) by simp_all
  have step: "capture_loop (ts @ [t']) s = capture_iter t' s1"
    using l c by (simp add: capture_loop_snoc)
  have cam1: "camera s1 \<noteq> None" using k assms(1) by simp
  from capture_iter_publish [OF cam1 assms(4)] obtain boxes s2 where
    s2: "capture_iter t' s1 = (Continue, s2)"
      "output_frame s2 = Some (Suc (length (store s1)))"
      "isl (inference_result t') \<or> \<not> detection_enabled s1 \<longrightarrow> boxes = []"
      "store s2 ! Suc (length (store s1)) = raw\<lparr>drawn := drawn raw @ boxes @
          [PutText (''Detection: '' @ (if detection_enabled s1 then ''ON'' else ''OFF'')) (10, 30),
           PutText (''Access: http://'' @ get_ip_address (sock t') @ '':5000'')
             (10, height raw - 10)]\<rparr>"
    by blast
  have "boxes = []" using s2(3) assms(3) by simp
  then have 1: "slot (snd (capture_loop (ts @ [t']) s)) = Some (raw\<lparr>drawn := drawn raw @
          [PutText ''Detection: ON'' (10, 30),
           PutText (''Access: http://'' @ get_ip_address (sock t') @ '':5000'')
             (10, height raw - 10)]\<rparr>)"
    using step s2 k by (simp add: slot_def)
  have 2: "fst (capture_loop (ts @ t' # us) s) = Continue"
    by (rule capture_loop_running [OF assms(1)])
  have 3: "camera (snd (capture_loop (ts @ t' # us) s)) = camera s"
    using capture_loop_keeps [of "ts @ t' # us" s] by simp
  from 1 2 3 show ?thesis by (intro conjI)
qed

theorem detector_failure_does_not_stop_capture_witness:
  "camera example_running \<noteq> None \<and> detection_enabled example_running
   \<and> isl (inference_result example_tick) \<and> read_result example_tick = Some example_frame
   \<and> slot (snd (capture_loop ([example_tick] @ [example_tick]) example_running)) =
       Some (example_frame\<lparr>drawn :=
          [PutText ''Detection: ON'' (10, 30),
           PutText ''Access: http://192.168.1.5:5000'' (10, 470)]\<rparr>)
   \<and> fst (capture_loop ([example_tick] @ example_tick # [example_tick]) example_running)
       = Continue"
proof -
  have a: "camera example_running \<noteq> None" and b: "detection_enabled example_running"
    by (simp_all add: example_running_eq)
  have c: "isl (inference_result example_tick)"
    and d: "read_result example_tick = Some example_frame"
    by (simp_all add: example_tick_def)
  have e: "drawn example_frame = []" "height example_frame = 480"
    "get_ip_address (sock example_tick) = ''192.168.1.5''"
    by (simp_all add: example_frame_def example_tick_def get_ip_address_def)
  from detector_failure_does_not_stop_capture
    [OF a b c d, of "[example_tick]" "[example_tick]"] a b c d
  show ?thesis by (simp add: e)
qed



text \<open>
  C10. \<^verbatim>\<open>GET /status\<close> reports \<^verbatim>\<open>detection_enabled\<close> as false whenever the camera is not
  running, whatever the stored flag is, and the read leaves the whole state, the stored
  flag included, as it was.
\<close>

theorem get_status_not_running:
  assumes "camera s = None"
  shows "map_of (fst (get_status sk s)) ''detection_enabled'' = Some (JBool False)
         \<and> map_of (fst (get_status sk s)) ''camera_running'' = Some (JBool False)
         \<and> snd (get_status sk s) = s"
  using assms by (simp add: get_status_def)

theorem get_status_not_running_witness:
  "camera (initial\<lparr>detection_enabled := True\<rparr>) = None
   \<and> map_of (fst (get_status (Inr ''10.0.0.7'') (initial\<lparr>detection_enabled := True\<rparr>)))
        ''detection_enabled'' = Some (JBool False)
   \<and> detection_enabled (snd (get_status (Inr ''10.0.0.7'') (initial\<lparr>detection_enabled := True\<rparr>)))"
  using get_status_not_running [of "initial\<lparr>detection_enabled := True\<rparr>" "Inr ''10.0.0.7''"]
  by (simp add: initial_def)

end
